theory Spec2Isabelle
  imports Main
begin

section \<open>The type cache of the RLP codec (rlp/typecache.go)\<close>

text \<open>
  The functions of \<open>rlp/typecache.go\<close> as functions of HOL. What reflection answers
  about a type is read from a table of type declarations; the global cache and the
  \<open>typeinfo\<close> objects it points to are a state that every function takes and returns;
  a returned error, a panic and a run that exceeds the bound on nested builds are
  values of the result.
\<close>

subsection \<open>Strings: strings.Split and strings.TrimSpace\<close>

text \<open>
  A Go string is a sequence of bytes, here a \<open>string\<close>. \<open>strings.Split(s, ",")\<close> cuts at
  every comma and returns one more piece than there are commas, so the empty string
  yields the single empty piece.
\<close>

fun Split_comma :: "string \<Rightarrow> string list" where
  "Split_comma [] = [[]]"
| "Split_comma (c # cs) =
     (if c = CHR '','' then [] # Split_comma cs
      else (case Split_comma cs of [] \<Rightarrow> [[c]] | t # ts \<Rightarrow> (c # t) # ts))"

text \<open>
  \<open>strings.TrimSpace\<close> removes leading and trailing white space as defined by Unicode.
  \<open>spaceRunes\<close> lists the UTF-8 encodings of the code points that \<open>unicode.IsSpace\<close>
  accepts: U+0009 to U+000D, U+0020, U+0085, U+00A0, U+1680, U+2000 to U+200A, U+2028,
  U+2029, U+202F, U+205F and U+3000.
\<close>

definition spaceRunes :: "string list" where
  "spaceRunes =
     [[CHR 0x09], [CHR 0x0A], [CHR 0x0B], [CHR 0x0C], [CHR 0x0D], [CHR 0x20],
      [CHR 0xC2, CHR 0x85], [CHR 0xC2, CHR 0xA0], [CHR 0xE1, CHR 0x9A, CHR 0x80],
      [CHR 0xE2, CHR 0x80, CHR 0x80], [CHR 0xE2, CHR 0x80, CHR 0x81],
      [CHR 0xE2, CHR 0x80, CHR 0x82], [CHR 0xE2, CHR 0x80, CHR 0x83],
      [CHR 0xE2, CHR 0x80, CHR 0x84], [CHR 0xE2, CHR 0x80, CHR 0x85],
      [CHR 0xE2, CHR 0x80, CHR 0x86], [CHR 0xE2, CHR 0x80, CHR 0x87],
      [CHR 0xE2, CHR 0x80, CHR 0x88], [CHR 0xE2, CHR 0x80, CHR 0x89],
      [CHR 0xE2, CHR 0x80, CHR 0x8A], [CHR 0xE2, CHR 0x80, CHR 0xA8],
      [CHR 0xE2, CHR 0x80, CHR 0xA9], [CHR 0xE2, CHR 0x80, CHR 0xAF],
      [CHR 0xE2, CHR 0x81, CHR 0x9F], [CHR 0xE3, CHR 0x80, CHR 0x80]]"

text \<open>
  \<open>trimRunes ws s\<close> strips from the front of \<open>s\<close>, as long as there is one, an element of
  \<open>ws\<close>. The fuel is the number of bytes left, which each stripped rune lowers.
\<close>

fun trimRunes :: "string list \<Rightarrow> nat \<Rightarrow> string \<Rightarrow> string" where
  "trimRunes ws 0 s = s"
| "trimRunes ws (Suc n) s =
     (case find (\<lambda>w. w \<noteq> [] \<and> take (length w) s = w) ws of
        None \<Rightarrow> s
      | Some w \<Rightarrow> trimRunes ws n (drop (length w) s))"

definition TrimLeft :: "string \<Rightarrow> string" where
  "TrimLeft s = trimRunes spaceRunes (length s) s"

definition TrimRight :: "string \<Rightarrow> string" where
  "TrimRight s = rev (trimRunes (map rev spaceRunes) (length s) (rev s))"

definition TrimSpace :: "string \<Rightarrow> string" where
  "TrimSpace s = TrimRight (TrimLeft s)"

subsection \<open>reflect.Type\<close>

text \<open>
  \<open>reflect.Kind\<close>, in the order of the Go constants.
\<close>

datatype Kind =
    Invalid | Bool | Int | Int8 | Int16 | Int32 | Int64
  | Uint | Uint8 | Uint16 | Uint32 | Uint64 | Uintptr
  | Float32 | Float64 | Complex64 | Complex128
  | Array | Chan | Func | Interface | Map | Pointer | Slice | String | Struct
  | UnsafePointer

text \<open>
  A \<open>reflect.Type\<close> is an identity (types may refer to themselves, so a type is a name
  and not a tree); what reflection answers about it is looked up in the program's type
  declarations, a value of \<open>rtypes\<close>. A \<open>StructField\<close> carries the name, the package
  path (empty for an exported field), the field's type and \<open>rlpTag\<close>, which is what
  \<open>f.Tag.Get("rlp")\<close> returns.
\<close>

type_synonym rtype = nat

record StructField =
  Name :: string
  PkgPath :: string
  Type :: rtype
  rlpTag :: string

record rtypes =
  kindOf :: "rtype \<Rightarrow> Kind"
  fieldsOf :: "rtype \<Rightarrow> StructField list"

text \<open>
  \<open>typ.NumField()\<close> and \<open>typ.Field(i)\<close> panic when the type is not a struct, and
  \<open>Field\<close> panics when the index is out of range: \<open>None\<close> is the panic.
\<close>

definition NumField :: "rtypes \<Rightarrow> rtype \<Rightarrow> nat option" where
  "NumField R typ =
     (if kindOf R typ = Struct then Some (length (fieldsOf R typ)) else None)"

definition Field_at :: "rtypes \<Rightarrow> rtype \<Rightarrow> nat \<Rightarrow> StructField option" where
  "Field_at R typ i =
     (if kindOf R typ = Struct \<and> i < length (fieldsOf R typ)
      then Some (fieldsOf R typ ! i) else None)"

definition isUint :: "Kind \<Rightarrow> bool" where
  "isUint k = (k \<in> {Uint, Uint8, Uint16, Uint32, Uint64, Uintptr})"

subsection \<open>Struct tags\<close>

record tags =
  nilOK :: bool
  tail :: bool
  ignored :: bool

definition noTags :: tags where
  "noTags = \<lparr>nilOK = False, tail = False, ignored = False\<rparr>"

type_synonym typekey = "rtype \<times> tags"

text \<open>
  The errors built with \<open>fmt.Errorf\<close>: the constructor stands for the format string and
  carries the arguments that the message prints. \<open>TailNotLast typ name\<close> is
  \<open>invalid struct tag "tail" for typ.name (must be on last field)\<close>,
  \<open>TailNotSlice typ name\<close> is the same with \<open>(field type is not slice)\<close>, and
  \<open>UnknownTag t typ name\<close> is \<open>unknown struct tag t on typ.name\<close>. \<open>OtherError\<close> is
  an error made outside this file.
\<close>

datatype error =
    TailNotLast rtype string
  | TailNotSlice rtype string
  | UnknownTag string rtype string
  | OtherError string

text \<open>
  The loop of \<open>parseStructTag\<close> over the pieces of the tag. The result is the pair that
  the Go function returns: the tags read so far and the error, if any.
\<close>

fun parseTokens ::
  "rtypes \<Rightarrow> rtype \<Rightarrow> nat \<Rightarrow> StructField \<Rightarrow> tags \<Rightarrow> string list \<Rightarrow> tags \<times> error option"
where
  "parseTokens R typ fi f ts [] = (ts, None)"
| "parseTokens R typ fi f ts (t0 # rest) =
     (let t = TrimSpace t0 in
      if t = '''' then parseTokens R typ fi f ts rest
      else if t = ''-'' then parseTokens R typ fi f (ts\<lparr>ignored := True\<rparr>) rest
      else if t = ''nil'' then parseTokens R typ fi f (ts\<lparr>nilOK := True\<rparr>) rest
      else if t = ''tail'' then
        (let ts' = ts\<lparr>tail := True\<rparr> in
         if int fi \<noteq> int (length (fieldsOf R typ)) - 1
         then (ts', Some (TailNotLast typ (Name f)))
         else if kindOf R (Type f) \<noteq> Slice
         then (ts', Some (TailNotSlice typ (Name f)))
         else parseTokens R typ fi f ts' rest)
      else (ts, Some (UnknownTag t typ (Name f))))"

definition parseStructTag :: "rtypes \<Rightarrow> rtype \<Rightarrow> nat \<Rightarrow> (tags \<times> error option) option" where
  "parseStructTag R typ fi =
     (case Field_at R typ fi of
        None \<Rightarrow> None
      | Some f \<Rightarrow> Some (parseTokens R typ fi f noTags (Split_comma (rlpTag f))))"

text \<open>
  What the specification says of the parser, in its own words: the annotation is split
  on commas and every token trimmed; the empty token, \<open>-\<close>, \<open>nil\<close> and \<open>tail\<close> are the
  four forms; \<open>tail\<close> is valid on the last field when its type is a slice; any other
  token, and a \<open>tail\<close> that is not valid, is an error. The tokens are read from left to
  right and the first one that is rejected decides the error.
\<close>

definition tailAllowed :: "rtypes \<Rightarrow> rtype \<Rightarrow> nat \<Rightarrow> StructField \<Rightarrow> bool" where
  "tailAllowed R typ fi f =
     (int fi = int (length (fieldsOf R typ)) - 1 \<and> kindOf R (Type f) = Slice)"

definition knownToken :: "string \<Rightarrow> bool" where
  "knownToken t = (t \<in> {'''', ''-'', ''nil'', ''tail''})"

definition rejected :: "rtypes \<Rightarrow> rtype \<Rightarrow> nat \<Rightarrow> StructField \<Rightarrow> string \<Rightarrow> bool" where
  "rejected R typ fi f t =
     (\<not> knownToken t \<or> (t = ''tail'' \<and> \<not> tailAllowed R typ fi f))"

definition tagError :: "rtypes \<Rightarrow> rtype \<Rightarrow> nat \<Rightarrow> StructField \<Rightarrow> string \<Rightarrow> error" where
  "tagError R typ fi f t =
     (if t = ''tail''
      then (if int fi \<noteq> int (length (fieldsOf R typ)) - 1
            then TailNotLast typ (Name f) else TailNotSlice typ (Name f))
      else UnknownTag t typ (Name f))"

definition parse_spec ::
  "rtypes \<Rightarrow> rtype \<Rightarrow> nat \<Rightarrow> StructField \<Rightarrow> string \<Rightarrow> tags \<times> error option" where
  "parse_spec R typ fi f s =
     (let toks = map TrimSpace (Split_comma s);
          ok = takeWhile (\<lambda>t. \<not> rejected R typ fi f t) toks;
          bad = find (rejected R typ fi f) toks
      in (\<lparr>nilOK = (''nil'' \<in> set ok),
           tail = (''tail'' \<in> set ok \<or> bad = Some ''tail''),
           ignored = (''-'' \<in> set ok)\<rparr>,
          map_option (tagError R typ fi f) bad))"

text \<open>
  A field is visible (exported) when its package path is empty; it is the last of the
  visible fields when no field after it is visible.
\<close>

definition exported :: "StructField \<Rightarrow> bool" where
  "exported f = (PkgPath f = '''')"

definition lastVisible :: "rtypes \<Rightarrow> rtype \<Rightarrow> nat \<Rightarrow> bool" where
  "lastVisible R typ fi =
     (fi < length (fieldsOf R typ) \<and> exported (fieldsOf R typ ! fi) \<and>
      (\<forall>j < length (fieldsOf R typ). fi < j \<longrightarrow> \<not> exported (fieldsOf R typ ! j)))"

subsection \<open>The cache\<close>

text \<open>
  A \<open>*typeinfo\<close> is an address in a heap of \<open>typeinfo\<close> objects; \<open>new(typeinfo)\<close> appends
  a zero object, whose decoder and writer are nil (\<open>None\<close>). Decoders and writers are
  closures that this file never calls: they are values of the type parameters \<open>'d\<close>
  and \<open>'w\<close>.
\<close>

type_synonym ptr = nat

record ('d, 'w) typeinfo =
  decoder :: "'d option"
  writer :: "'w option"

record field =
  index :: nat
  info :: ptr

text \<open>
  The state is the global \<open>typeCache\<close> and the heap. \<open>genCalls\<close> is not in the source:
  it records, in order, the keys that \<open>genTypeInfo\<close> was called with, the call counter
  that a test would hang on the builder.
\<close>

record ('d, 'w) state =
  typeCache :: "typekey \<rightharpoonup> ptr"
  heap :: "('d, 'w) typeinfo list"
  genCalls :: "typekey list"

text \<open>
  A call returns a value with a nil error (\<open>Ret\<close>), returns a non-nil error (\<open>Fail\<close>),
  or panics. Around that, \<open>None\<close> says that the bound on nested builds was exceeded.
\<close>

datatype 'a res = Ret 'a | Fail error | Panic

type_synonym ('d, 'w, 'a) comp =
  "('d, 'w) state \<Rightarrow> ('a res \<times> ('d, 'w) state) option"

text \<open>
  \<open>andThen m k\<close> continues with \<open>k\<close> after a call has returned, with a value or with an
  error; a panic unwinds past the continuation.
\<close>

definition andThen ::
  "('a res \<times> 's) option \<Rightarrow> ('a res \<Rightarrow> 's \<Rightarrow> ('b res \<times> 's) option) \<Rightarrow> ('b res \<times> 's) option"
where
  "andThen m k =
     (case m of
        None \<Rightarrow> None
      | Some (r, s') \<Rightarrow> (case r of Panic \<Rightarrow> Some (Panic, s') | _ \<Rightarrow> k r s'))"

text \<open>
  \<open>cachedTypeInfo1\<close> calls \<open>genTypeInfo\<close>, which calls the builders, which call
  \<open>structFields\<close> and \<open>cachedTypeInfo1\<close>. The recursion is closed in \<open>cachedTypeInfo1\<close>
  below; the functions before it take the resolver that they call, named \<open>rec\<close>, as
  their first argument, and \<open>cachedTypeInfo1\<close> passes itself.

  The loop of \<open>structFields\<close>, from index \<open>i\<close> on, with the fields appended so far.
\<close>

function structFieldsFrom ::
  "(rtype \<Rightarrow> tags \<Rightarrow> ('d, 'w, ptr) comp) \<Rightarrow> rtypes \<Rightarrow> rtype \<Rightarrow> nat \<Rightarrow> field list
     \<Rightarrow> ('d, 'w, field list) comp"
where
  "structFieldsFrom rec R typ i flds s =
     (if i < length (fieldsOf R typ) then
        (let f = fieldsOf R typ ! i in
         if PkgPath f = '''' then
           (case parseStructTag R typ i of
              None \<Rightarrow> Some (Panic, s)
            | Some (tgs, Some err) \<Rightarrow> Some (Fail err, s)
            | Some (tgs, None) \<Rightarrow>
                if ignored tgs then structFieldsFrom rec R typ (Suc i) flds s
                else
                  (case rec (Type f) tgs s of
                     None \<Rightarrow> None
                   | Some (Panic, s') \<Rightarrow> Some (Panic, s')
                   | Some (Fail err, s') \<Rightarrow> Some (Fail err, s')
                   | Some (Ret p, s') \<Rightarrow>
                       structFieldsFrom rec R typ (Suc i)
                         (flds @ [\<lparr>index = i, info = p\<rparr>]) s'))
         else structFieldsFrom rec R typ (Suc i) flds s)
      else Some (Ret flds, s))"
  by pat_completeness auto
termination
  by (relation "measure (\<lambda>(rec, R, typ, i, flds, s). length (fieldsOf R typ) - i)") auto

declare structFieldsFrom.simps [simp del]

definition structFields ::
  "(rtype \<Rightarrow> tags \<Rightarrow> ('d, 'w, ptr) comp) \<Rightarrow> rtypes \<Rightarrow> rtype \<Rightarrow> ('d, 'w, field list) comp"
where
  "structFields rec R typ s =
     (case NumField R typ of
        None \<Rightarrow> Some (Panic, s)
      | Some n \<Rightarrow> structFieldsFrom rec R typ 0 [] s)"

text \<open>
  Modelled from the spec: \<open>makeDecoder\<close> and \<open>makeWriter\<close>, which \<open>genTypeInfo\<close> calls,
  are defined in files that are not part of this fragment. The specification (4.3,
  step 5, and section 6) makes them a collaborator that, given a type and its tags,
  either fails or produces a strategy, and that re-enters the cache through
  \<open>cachedTypeInfo1\<close> and \<open>structFields\<close> only. Such a builder is a \<open>script\<close>: it is done
  with a result, or it makes one of the two calls and goes on according to what the
  call returned.
\<close>

datatype 'a script =
    Done "'a res"
  | CallCachedTypeInfo1 rtype tags "ptr res \<Rightarrow> 'a script"
  | CallStructFields rtype "field list res \<Rightarrow> 'a script"

primrec runScript ::
  "(rtype \<Rightarrow> tags \<Rightarrow> ('d, 'w, ptr) comp) \<Rightarrow> rtypes \<Rightarrow> 'a script \<Rightarrow> ('d, 'w, 'a) comp"
where
  "runScript rec R (Done r) = (\<lambda>s. Some (r, s))"
| "runScript rec R (CallCachedTypeInfo1 typ tgs k) =
     (\<lambda>s. andThen (rec typ tgs s) (\<lambda>r. runScript rec R (k r)))"
| "runScript rec R (CallStructFields typ k) =
     (\<lambda>s. andThen (structFields rec R typ s) (\<lambda>r. runScript rec R (k r)))"

definition genTypeInfo ::
  "(rtype \<Rightarrow> tags \<Rightarrow> ('d, 'w, ptr) comp) \<Rightarrow> rtypes
     \<Rightarrow> (rtype \<Rightarrow> tags \<Rightarrow> 'd script) \<Rightarrow> (rtype \<Rightarrow> tags \<Rightarrow> 'w script)
     \<Rightarrow> rtype \<Rightarrow> tags \<Rightarrow> ('d, 'w, ('d, 'w) typeinfo) comp"
where
  "genTypeInfo rec R makeDecoder makeWriter typ tgs s =
     (case runScript rec R (makeDecoder typ tgs)
             (s\<lparr>genCalls := genCalls s @ [(typ, tgs)]\<rparr>) of
        None \<Rightarrow> None
      | Some (Panic, s1) \<Rightarrow> Some (Panic, s1)
      | Some (Fail err, s1) \<Rightarrow> Some (Fail err, s1)
      | Some (Ret dec, s1) \<Rightarrow>
          (case runScript rec R (makeWriter typ tgs) s1 of
             None \<Rightarrow> None
           | Some (Panic, s2) \<Rightarrow> Some (Panic, s2)
           | Some (Fail err, s2) \<Rightarrow> Some (Fail err, s2)
           | Some (Ret wr, s2) \<Rightarrow>
               Some (Ret \<lparr>decoder = Some dec, writer = Some wr\<rparr>, s2)))"

text \<open>
  \<open>typeCache[key] = new(typeinfo)\<close>: the dummy value that is put into the cache before
  generating.
\<close>

definition putDummy :: "typekey \<Rightarrow> ('d, 'w) state \<Rightarrow> ('d, 'w) state" where
  "putDummy key s =
     s\<lparr>typeCache := (typeCache s)(key \<mapsto> length (heap s)),
       heap := heap s @ [\<lparr>decoder = None, writer = None\<rparr>]\<rparr>"

text \<open>
  \<open>cachedTypeInfo1\<close>. The first argument after the builders and the type declarations
  bounds how deep builds may nest: a hit costs nothing, a miss runs the builder with
  one less.
\<close>

primrec cachedTypeInfo1 ::
  "(rtype \<Rightarrow> tags \<Rightarrow> 'd script) \<Rightarrow> (rtype \<Rightarrow> tags \<Rightarrow> 'w script) \<Rightarrow> rtypes \<Rightarrow> nat
     \<Rightarrow> rtype \<Rightarrow> tags \<Rightarrow> ('d, 'w, ptr) comp"
where
  "cachedTypeInfo1 makeDecoder makeWriter R 0 =
     (\<lambda>typ tgs s.
        (case typeCache s (typ, tgs) of
           Some p \<Rightarrow> Some (Ret p, s)
         | None \<Rightarrow> None))"
| "cachedTypeInfo1 makeDecoder makeWriter R (Suc n) =
     (\<lambda>typ tgs s.
        (case typeCache s (typ, tgs) of
           Some p \<Rightarrow> Some (Ret p, s)
         | None \<Rightarrow>
             (case genTypeInfo (cachedTypeInfo1 makeDecoder makeWriter R n) R
                     makeDecoder makeWriter typ tgs (putDummy (typ, tgs) s) of
                None \<Rightarrow> None
              | Some (Panic, s2) \<Rightarrow> Some (Panic, s2)
              | Some (Fail err, s2) \<Rightarrow>
                  Some (Fail err, s2\<lparr>typeCache := (typeCache s2)((typ, tgs) := None)\<rparr>)
              | Some (Ret ti, s2) \<Rightarrow>
                  (case typeCache s2 (typ, tgs) of
                     None \<Rightarrow> Some (Panic, s2)
                   | Some p \<Rightarrow> Some (Ret p, s2\<lparr>heap := (heap s2)[p := ti]\<rparr>)))))"

text \<open>
  \<open>cachedTypeInfo\<close>, the entry point that locks. The read lock and the write lock keep
  other goroutines out; in one goroutine they change nothing, and what is left is the
  lookup followed by \<open>cachedTypeInfo1\<close>.
\<close>

definition cachedTypeInfo ::
  "(rtype \<Rightarrow> tags \<Rightarrow> 'd script) \<Rightarrow> (rtype \<Rightarrow> tags \<Rightarrow> 'w script) \<Rightarrow> rtypes \<Rightarrow> nat
     \<Rightarrow> rtype \<Rightarrow> tags \<Rightarrow> ('d, 'w, ptr) comp"
where
  "cachedTypeInfo makeDecoder makeWriter R n typ tgs s =
     (case typeCache s (typ, tgs) of
        Some p \<Rightarrow> Some (Ret p, s)
      | None \<Rightarrow> cachedTypeInfo1 makeDecoder makeWriter R n typ tgs s)"

text \<open>
  The error kinds of the specification: a \<open>tail\<close> in the wrong place is a
  ModifierPlacementError, an unknown token a ModifierSyntaxError.
\<close>

definition ModifierPlacementError :: "error \<Rightarrow> bool" where
  "ModifierPlacementError e =
     (case e of TailNotLast t n \<Rightarrow> True | TailNotSlice t n \<Rightarrow> True | _ \<Rightarrow> False)"

definition ModifierSyntaxError :: "error \<Rightarrow> bool" where
  "ModifierSyntaxError e = (case e of UnknownTag t ty n \<Rightarrow> True | _ \<Rightarrow> False)"

subsection \<open>What a call may change\<close>

text \<open>
  \<open>extends s s'\<close>: every entry of the cache of \<open>s\<close> is in \<open>s'\<close> with the same address, the
  heap of \<open>s\<close> is an initial part of the heap of \<open>s'\<close>, and the builder has run since
  only for keys that \<open>s\<close> had no entry for. \<open>frames rec\<close> says that every call of \<open>rec\<close>
  that returns leaves such a state.
\<close>

definition extends :: "('d, 'w) state \<Rightarrow> ('d, 'w) state \<Rightarrow> bool" where
  "extends s s' =
     ((\<forall>k p. typeCache s k = Some p \<longrightarrow> typeCache s' k = Some p) \<and>
      length (heap s) \<le> length (heap s') \<and>
      take (length (heap s)) (heap s') = heap s \<and>
      (\<exists>new. genCalls s' = genCalls s @ new \<and> (\<forall>k \<in> set new. typeCache s k = None)))"

definition frames :: "(rtype \<Rightarrow> tags \<Rightarrow> ('d, 'w, ptr) comp) \<Rightarrow> bool" where
  "frames rec = (\<forall>typ tgs s r s'. rec typ tgs s = Some (r, s') \<longrightarrow> extends s s')"

subsection \<open>Example declarations\<close>

text \<open>
  A struct (type 0) whose six exported fields carry the tags of the examples; type 1 is
  a slice, every other type an unsigned integer.
\<close>

definition tagTypes :: rtypes where
  "tagTypes =
     \<lparr>kindOf = (\<lambda>t. if t = 0 then Struct else if t = 1 then Slice else Uint),
      fieldsOf = (\<lambda>t. if t = 0 then
         [\<lparr>Name = ''A'', PkgPath = '''', Type = 2, rlpTag = ''nil''\<rparr>,
          \<lparr>Name = ''B'', PkgPath = '''', Type = 2, rlpTag = ''-''\<rparr>,
          \<lparr>Name = ''C'', PkgPath = '''', Type = 2, rlpTag = ''bogus''\<rparr>,
          \<lparr>Name = ''D'', PkgPath = '''', Type = 1, rlpTag = ''bogus,tail''\<rparr>,
          \<lparr>Name = ''E'', PkgPath = '''', Type = 2, rlpTag = ''tail''\<rparr>,
          \<lparr>Name = ''F'', PkgPath = '''', Type = 1, rlpTag = '' nil , tail''\<rparr>]
        else [])\<rparr>"

text \<open>
  A struct (type 0) whose exported field \<open>A\<close>, a slice tagged \<open>tail\<close>, is followed by a
  field that is not exported.
\<close>

definition hiddenLastTypes :: rtypes where
  "hiddenLastTypes =
     \<lparr>kindOf = (\<lambda>t. if t = 0 then Struct else if t = 1 then Slice else Uint),
      fieldsOf = (\<lambda>t. if t = 0 then
         [\<lparr>Name = ''A'', PkgPath = '''', Type = 1, rlpTag = ''tail''\<rparr>,
          \<lparr>Name = ''b'', PkgPath = ''rlp'', Type = 2, rlpTag = ''''\<rparr>]
        else [])\<rparr>"

subsection \<open>Fields that are enumerated\<close>

text \<open>
  A field yields a descriptor when it is exported and its tag parses without error to
  tags that do not ignore it. \<open>agreeOnVisible R R' ty\<close>: the declarations \<open>R'\<close> differ
  from \<open>R\<close>, for the type \<open>ty\<close>, at most in what they say of its fields that are not
  exported (their names, types and tags).
\<close>

definition enumerated :: "rtypes \<Rightarrow> rtype \<Rightarrow> nat \<Rightarrow> bool" where
  "enumerated R ty i =
     (exported (fieldsOf R ty ! i) \<and>
      (case parseStructTag R ty i of
         Some (tgs, None) \<Rightarrow> \<not> ignored tgs
       | _ \<Rightarrow> False))"


subsection \<open>Callers and the keys a build can ask for\<close>

text \<open>
  \<open>resolveAll\<close> is a caller that resolves a list of keys through \<open>cachedTypeInfo\<close>, one
  after the other, whatever each call returns.
\<close>

fun resolveAll ::
  "(rtype \<Rightarrow> tags \<Rightarrow> 'd script) \<Rightarrow> (rtype \<Rightarrow> tags \<Rightarrow> 'w script) \<Rightarrow> rtypes \<Rightarrow> nat
     \<Rightarrow> typekey list \<Rightarrow> ('d, 'w) state \<Rightarrow> ('d, 'w) state option"
where
  "resolveAll mkD mkW R n [] s = Some s"
| "resolveAll mkD mkW R n (k # ks) s =
     (case cachedTypeInfo mkD mkW R n (fst k) (snd k) s of
        None \<Rightarrow> None
      | Some (r, s') \<Rightarrow> resolveAll mkD mkW R n ks s')"






subsection \<open>Example types and builders\<close>

text \<open>
  Type 0 is a struct \<open>Node\<close> with a number and a tail of nodes (type 2, a slice of
  \<open>Node\<close>); type 1 is \<open>uint\<close>; type 3 is a struct with a number and a channel (type 4),
  which has no encoding; type 5 is the struct of the field-filtering example, with one
  more field; type 6 is the slice type \<open>type T []T\<close>; type 7 is a struct with a slice
  of itself (type 8) and a channel. The example builder does what a
  builder does for these kinds: a struct enumerates its fields, a slice resolves its
  element type, a number needs nothing, anything else is an error. The strategy it
  returns is the list of the addresses it was given.
\<close>

definition exTypes :: rtypes where
  "exTypes =
     \<lparr>kindOf = (\<lambda>t. if t = 0 \<or> t = 3 \<or> t = 5 \<or> t = 7 then Struct
                     else if t = 1 then Uint
                     else if t = 2 \<or> t = 6 \<or> t = 8 then Slice
                     else Chan),
      fieldsOf = (\<lambda>t.
        if t = 0 then
          [\<lparr>Name = ''X'', PkgPath = '''', Type = 1, rlpTag = ''''\<rparr>,
           \<lparr>Name = ''Next'', PkgPath = '''', Type = 2, rlpTag = ''tail''\<rparr>]
        else if t = 3 then
          [\<lparr>Name = ''Y'', PkgPath = '''', Type = 1, rlpTag = ''''\<rparr>,
           \<lparr>Name = ''Z'', PkgPath = '''', Type = 4, rlpTag = ''''\<rparr>]
        else if t = 5 then
          [\<lparr>Name = ''Visible'', PkgPath = '''', Type = 1, rlpTag = ''''\<rparr>,
           \<lparr>Name = ''hiddenField'', PkgPath = ''rlp'', Type = 4, rlpTag = ''bogus''\<rparr>,
           \<lparr>Name = ''IgnoredTagged'', PkgPath = '''', Type = 4, rlpTag = ''-''\<rparr>,
           \<lparr>Name = ''Rest'', PkgPath = '''', Type = 2, rlpTag = ''nil''\<rparr>]
        else if t = 7 then
          [\<lparr>Name = ''Kids'', PkgPath = '''', Type = 8, rlpTag = ''''\<rparr>,
           \<lparr>Name = ''Ch'', PkgPath = '''', Type = 4, rlpTag = ''''\<rparr>]
        else [])\<rparr>"


definition exElem :: "rtype \<Rightarrow> rtype" where
  "exElem t = (if t = 2 then 0 else if t = 8 then 7 else t)"

definition exMake :: "rtype \<Rightarrow> tags \<Rightarrow> ptr list script" where
  "exMake ty tgs =
     (case kindOf exTypes ty of
        Struct \<Rightarrow>
          CallStructFields ty
            (\<lambda>r. case r of Ret fs \<Rightarrow> Done (Ret (map info fs))
                  | Fail e \<Rightarrow> Done (Fail e) | Panic \<Rightarrow> Done Panic)
      | Slice \<Rightarrow>
          CallCachedTypeInfo1 (exElem ty) noTags
            (\<lambda>r. case r of Ret p \<Rightarrow> Done (Ret [p])
                  | Fail e \<Rightarrow> Done (Fail e) | Panic \<Rightarrow> Done Panic)
      | Uint \<Rightarrow> Done (Ret [])
      | _ \<Rightarrow> Done (Fail (OtherError ''type is not RLP-serializable'')))"

definition emptyCache :: "(ptr list, ptr list) state" where
  "emptyCache = \<lparr>typeCache = Map.empty, heap = [], genCalls = []\<rparr>"

section \<open>Properties\<close>

subsection \<open>The tag parser\<close>

lemma parseTokens_spec:
  "parseTokens R ty fi f ts toks0 =
     (let toks = map TrimSpace toks0;
          ok = takeWhile (\<lambda>t. \<not> rejected R ty fi f t) toks;
          bad = find (rejected R ty fi f) toks
      in (\<lparr>nilOK = (nilOK ts \<or> ''nil'' \<in> set ok),
           tail = (tail ts \<or> ''tail'' \<in> set ok \<or> bad = Some ''tail''),
           ignored = (ignored ts \<or> ''-'' \<in> set ok)\<rparr>,
          map_option (tagError R ty fi f) bad))"
proof (induction toks0 arbitrary: ts)
  case Nil
  show ?case by simp
next
  case (Cons t0 rest)
  show ?case
    by (simp add: Cons.IH Let_def rejected_def knownToken_def tagError_def tailAllowed_def)
qed

lemma parseStructTag_spec:
  "Field_at R ty fi = Some f \<Longrightarrow>
   parseStructTag R ty fi = Some (parse_spec R ty fi f (rlpTag f))"
  by (simp add: parseStructTag_def parse_spec_def parseTokens_spec noTags_def)

lemmas TrimSpace_defs = TrimSpace_def TrimLeft_def TrimRight_def spaceRunes_def



lemma TrimSpace_bogus: "TrimSpace ''bogus'' = ''bogus''"
  by (simp add: TrimSpace_defs)

lemma TrimSpace_tail: "TrimSpace ''tail'' = ''tail''"
  by (simp add: TrimSpace_defs)



lemma tagTypes_fields:
  "Field_at tagTypes 0 0 = Some \<lparr>Name = ''A'', PkgPath = '''', Type = 2, rlpTag = ''nil''\<rparr>"
  "Field_at tagTypes 0 1 = Some \<lparr>Name = ''B'', PkgPath = '''', Type = 2, rlpTag = ''-''\<rparr>"
  "Field_at tagTypes 0 2 = Some \<lparr>Name = ''C'', PkgPath = '''', Type = 2, rlpTag = ''bogus''\<rparr>"
  "Field_at tagTypes 0 3 = Some \<lparr>Name = ''D'', PkgPath = '''', Type = 1, rlpTag = ''bogus,tail''\<rparr>"
  "Field_at tagTypes 0 4 = Some \<lparr>Name = ''E'', PkgPath = '''', Type = 2, rlpTag = ''tail''\<rparr>"
  "Field_at tagTypes 0 5 = Some \<lparr>Name = ''F'', PkgPath = '''', Type = 1, rlpTag = '' nil , tail''\<rparr>"
  by (simp_all add: Field_at_def tagTypes_def)


lemma find_rejected_tail:
  assumes "\<not> tailAllowed R ty fi f" and "''tail'' \<in> set toks"
  shows "find (rejected R ty fi f) toks =
           (case find (\<lambda>t. \<not> knownToken t) (takeWhile (\<lambda>t. t \<noteq> ''tail'') toks) of
              None \<Rightarrow> Some ''tail''
            | Some u \<Rightarrow> Some u)"
  using assms(2)
proof (induction toks)
  case Nil
  then show ?case by simp
next
  case (Cons t toks)
  show ?case
  proof (cases "t = ''tail''")
    case True
    with assms(1) show ?thesis by (simp add: rejected_def)
  next
    case False
    with Cons.prems have "''tail'' \<in> set toks" by simp
    from Cons.IH [OF this] False show ?thesis by (simp add: rejected_def)
  qed
qed

lemma last_field_lastVisible:
  assumes "Field_at R ty fi = Some f" and "exported f" and "tailAllowed R ty fi f"
  shows "lastVisible R ty fi"
proof -
  from assms(1) have a: "fi < length (fieldsOf R ty)" "f = fieldsOf R ty ! fi"
    by (auto simp: Field_at_def split: if_splits)
  from assms(3) a(1) have "fi = length (fieldsOf R ty) - 1"
    by (simp add: tailAllowed_def) arith
  with a assms(2) show ?thesis by (auto simp: lastVisible_def)
qed

text \<open>
  Claim C4, as amended. When the declaration of a field carries the \<open>tail\<close>
  token and the field is not the last field of its type with a slice type (in particular
  when it is exported and not the last of the visible fields, or not a slice),
  \<open>parseStructTag\<close> returns an error: the ModifierPlacementError when every
  token before the first \<open>tail\<close> is one of the four forms, and otherwise the
  ModifierSyntaxError of the first unknown token. The declaration is never accepted,
  corrected or dropped.
\<close>

theorem tail_placement_rejected:
  assumes "Field_at R ty fi = Some f"
    and "''tail'' \<in> set (map TrimSpace (Split_comma (rlpTag f)))"
    and "\<not> tailAllowed R ty fi f \<or>
         (exported f \<and> \<not> (lastVisible R ty fi \<and> kindOf R (Type f) = Slice))"
  shows "\<exists>ts e. parseStructTag R ty fi = Some (ts, Some e) \<and>
           e = (case find (\<lambda>t. \<not> knownToken t)
                       (takeWhile (\<lambda>t. t \<noteq> ''tail'')
                          (map TrimSpace (Split_comma (rlpTag f)))) of
                  None \<Rightarrow> (if int fi \<noteq> int (length (fieldsOf R ty)) - 1
                            then TailNotLast ty (Name f) else TailNotSlice ty (Name f))
                | Some u \<Rightarrow> UnknownTag u ty (Name f)) \<and>
           (ModifierPlacementError e \<or> ModifierSyntaxError e)"
proof -
  let ?toks = "map TrimSpace (Split_comma (rlpTag f))"
  let ?pre = "takeWhile (\<lambda>t. t \<noteq> ''tail'') ?toks"
  have na: "\<not> tailAllowed R ty fi f"
  proof
    assume ta: "tailAllowed R ty fi f"
    with assms(3) have "exported f" and n: "\<not> (lastVisible R ty fi \<and> kindOf R (Type f) = Slice)"
      by auto
    from last_field_lastVisible [OF assms(1) this(1) ta] ta n show False
      by (simp add: tailAllowed_def)
  qed
  note fr = find_rejected_tail [OF na assms(2)]
  have eq: "parseStructTag R ty fi = Some (parse_spec R ty fi f (rlpTag f))"
    using assms(1) by (rule parseStructTag_spec)
  show ?thesis
  proof (cases "find (\<lambda>t. \<not> knownToken t) ?pre")
    case None
    with fr have "find (rejected R ty fi f) ?toks = Some ''tail''" by simp
    then show ?thesis
      unfolding eq using None
      by (simp add: parse_spec_def Let_def tagError_def ModifierPlacementError_def)
  next
    case (Some u)
    then have "\<not> knownToken u" by (auto simp: find_Some_iff)
    then have u: "u \<noteq> ''tail''" by (auto simp: knownToken_def)
    from Some fr have "find (rejected R ty fi f) ?toks = Some u" by simp
    then show ?thesis
      unfolding eq using Some u
      by (simp add: parse_spec_def Let_def tagError_def ModifierSyntaxError_def)
  qed
qed

lemma Split_bogus_tail: "map TrimSpace (Split_comma ''bogus,tail'') = [''bogus'', ''tail'']"
  by (simp add: TrimSpace_bogus TrimSpace_tail)

lemma Split_tail: "map TrimSpace (Split_comma ''tail'') = [''tail'']"
  by (simp add: TrimSpace_tail)

text \<open>
  Claim C4 at a concrete input. Field \<open>E\<close> of \<open>tagTypes\<close>
  carries \<open>tail\<close> and is not the last field: the error says so.
\<close>

theorem tail_placement_rejected_witness:
  "''tail'' \<in> set (map TrimSpace (Split_comma ''tail'')) \<and>
   \<not> tailAllowed tagTypes 0 4 \<lparr>Name = ''E'', PkgPath = '''', Type = 2, rlpTag = ''tail''\<rparr> \<and>
   parseStructTag tagTypes 0 4 =
     Some (\<lparr>nilOK = False, tail = True, ignored = False\<rparr>, Some (TailNotLast 0 ''E''))"
proof -
  have t: "''tail'' \<in> set (map TrimSpace (Split_comma (rlpTag
             \<lparr>Name = ''E'', PkgPath = '''', Type = 2, rlpTag = ''tail''\<rparr>)))"
    by (simp only: StructField.simps Split_tail) simp
  have n: "\<not> tailAllowed tagTypes 0 4 \<lparr>Name = ''E'', PkgPath = '''', Type = 2, rlpTag = ''tail''\<rparr>"
    by (simp add: tailAllowed_def tagTypes_def)
  have len: "length (fieldsOf tagTypes 0) = 6"
    by (simp add: tagTypes_def)
  have pre: "find (\<lambda>t. \<not> knownToken t) (takeWhile (\<lambda>t. t \<noteq> ''tail'') [''tail'']) = None"
    by simp
  have "\<exists>ts. parseStructTag tagTypes 0 4 = Some (ts, Some (TailNotLast 0 ''E''))"
    using tail_placement_rejected [OF tagTypes_fields(5) t disjI1 [OF n]]
    by (simp only: StructField.simps Split_tail pre len) auto
  moreover have "fst (the (parseStructTag tagTypes 0 4)) = \<lparr>nilOK = False, tail = True, ignored = False\<rparr>"
    by (simp add: parseStructTag_def tagTypes_fields TrimSpace_tail noTags_def len)
  moreover have "''tail'' \<in> set (map TrimSpace (Split_comma ''tail''))"
    by (simp only: Split_tail) simp
  ultimately show ?thesis using n by auto
qed

text \<open>
  Claim C4 as it was stated fails on field \<open>D\<close> of \<open>tagTypes\<close>:
  its tag \<open>bogus,tail\<close> carries the \<open>tail\<close> token, the field is
  not the last one, and the error returned is the one for the unknown token
  \<open>bogus\<close>, not a ModifierPlacementError.
\<close>

theorem tail_error_kind_counterexample:
  "''tail'' \<in> set (map TrimSpace (Split_comma ''bogus,tail'')) \<and>
   Field_at tagTypes 0 3 =
     Some \<lparr>Name = ''D'', PkgPath = '''', Type = 1, rlpTag = ''bogus,tail''\<rparr> \<and>
   \<not> lastVisible tagTypes 0 3 \<and>
   parseStructTag tagTypes 0 3 =
     Some (\<lparr>nilOK = False, tail = False, ignored = False\<rparr>, Some (UnknownTag ''bogus'' 0 ''D'')) \<and>
   \<not> ModifierPlacementError (UnknownTag ''bogus'' 0 ''D'')"
proof -
  have "\<not> lastVisible tagTypes 0 3"
    by (simp add: lastVisible_def tagTypes_def exported_def) (rule exI [of _ 4], simp)
  moreover have "parseStructTag tagTypes 0 3 =
     Some (\<lparr>nilOK = False, tail = False, ignored = False\<rparr>, Some (UnknownTag ''bogus'' 0 ''D''))"
    by (simp add: parseStructTag_def tagTypes_fields TrimSpace_bogus noTags_def)
  moreover have "''tail'' \<in> set (map TrimSpace (Split_comma ''bogus,tail''))"
    by (simp only: Split_bogus_tail) simp
  ultimately show ?thesis
    by (simp add: tagTypes_fields ModifierPlacementError_def)
qed

text \<open>
  The check is against the last of all fields, as the comment on \<open>tail\<close> in the source
  says: a \<open>tail\<close> on the last visible field, a slice, is rejected when a field that is
  not exported follows.
\<close>

lemma tail_before_hidden_field_rejected:
  "lastVisible hiddenLastTypes 0 0 \<and>
   kindOf hiddenLastTypes 1 = Slice \<and>
   parseStructTag hiddenLastTypes 0 0 =
     Some (\<lparr>nilOK = False, tail = True, ignored = False\<rparr>, Some (TailNotLast 0 ''A''))"
proof -
  have "lastVisible hiddenLastTypes 0 0"
    by (auto simp: lastVisible_def hiddenLastTypes_def exported_def less_Suc_eq)
  moreover have "parseStructTag hiddenLastTypes 0 0 =
     Some (\<lparr>nilOK = False, tail = True, ignored = False\<rparr>, Some (TailNotLast 0 ''A''))"
    by (simp add: parseStructTag_def Field_at_def hiddenLastTypes_def TrimSpace_tail noTags_def)
  ultimately show ?thesis by (simp add: hiddenLastTypes_def)
qed

subsection \<open>What a call leaves unchanged\<close>

lemma extendsI:
  assumes "\<And>k p. typeCache s k = Some p \<Longrightarrow> typeCache s' k = Some p"
    and "length (heap s) \<le> length (heap s')"
    and "take (length (heap s)) (heap s') = heap s"
    and "genCalls s' = genCalls s @ new"
    and "\<And>k. k \<in> set new \<Longrightarrow> typeCache s k = None"
  shows "extends s s'"
  unfolding extends_def using assms by blast

lemma extends_refl: "extends s s"
  by (simp add: extends_def)

lemma extends_trans:
  assumes "extends s1 s2" and "extends s2 s3"
  shows "extends s1 s3"
proof -
  from assms obtain n1 n2 where
    g1: "genCalls s2 = genCalls s1 @ n1" "\<forall>k \<in> set n1. typeCache s1 k = None" and
    g2: "genCalls s3 = genCalls s2 @ n2" "\<forall>k \<in> set n2. typeCache s2 k = None"
    unfolding extends_def by blast
  have c: "\<forall>k p. typeCache s1 k = Some p \<longrightarrow> typeCache s2 k = Some p"
    using assms(1) unfolding extends_def by blast
  have "\<forall>k \<in> set n2. typeCache s1 k = None"
  proof
    fix k assume "k \<in> set n2"
    then have "typeCache s2 k = None" using g2 by blast
    then show "typeCache s1 k = None" using c by (cases "typeCache s1 k") auto
  qed
  then have g: "genCalls s3 = genCalls s1 @ (n1 @ n2) \<and> (\<forall>k \<in> set (n1 @ n2). typeCache s1 k = None)"
    using g1 g2 by auto
  have l: "length (heap s1) \<le> length (heap s2)" "length (heap s2) \<le> length (heap s3)"
    "take (length (heap s1)) (heap s2) = heap s1" "take (length (heap s2)) (heap s3) = heap s2"
    using assms unfolding extends_def by blast+
  have "take (length (heap s1)) (heap s3) = take (length (heap s1)) (take (length (heap s2)) (heap s3))"
    using l(1) by (simp add: min_def)
  then have h: "take (length (heap s1)) (heap s3) = heap s1" using l by simp
  have c2: "\<forall>k p. typeCache s2 k = Some p \<longrightarrow> typeCache s3 k = Some p"
    using assms(2) unfolding extends_def by blast
  have c3: "\<forall>k p. typeCache s1 k = Some p \<longrightarrow> typeCache s3 k = Some p"
    using c c2 by blast
  have l3: "length (heap s1) \<le> length (heap s3)" using l by simp
  show ?thesis
    unfolding extends_def using c3 l3 h g by blast
qed

lemma andThen_Some:
  assumes "andThen m k = Some (r, s')"
  shows "(m = Some (Panic, s') \<and> r = Panic) \<or>
         (\<exists>r1 s1. m = Some (r1, s1) \<and> r1 \<noteq> Panic \<and> k r1 s1 = Some (r, s'))"
  using assms by (auto simp: andThen_def split: option.splits res.splits)

lemma structFieldsFrom_extends:
  "frames rec \<Longrightarrow> structFieldsFrom rec R ty i flds s = Some (r, s') \<Longrightarrow> extends s s'"
proof (induction rec R ty i flds s rule: structFieldsFrom.induct)
  case (1 rc R ty i flds s)
  note fr = \<open>frames rc\<close>
  note run = \<open>structFieldsFrom rc R ty i flds s = Some (r, s')\<close>
  show ?case
  proof (cases "i < length (fieldsOf R ty)")
    case False
    with run have "s' = s" by (subst (asm) structFieldsFrom.simps) simp
    then show ?thesis by (simp add: extends_refl)
  next
    case inb: True
    define f where "f = fieldsOf R ty ! i"
    show ?thesis
    proof (cases "PkgPath f = ''''")
      case False
      with run inb have "structFieldsFrom rc R ty (Suc i) flds s = Some (r, s')"
        by (subst (asm) structFieldsFrom.simps) (simp add: f_def)
      with "1.IH"(3) [OF inb f_def False fr] show ?thesis by simp
    next
      case ex: True
      show ?thesis
      proof (cases "parseStructTag R ty i")
        case None
        with run inb ex have "s' = s"
          by (subst (asm) structFieldsFrom.simps) (simp add: f_def)
        then show ?thesis by (simp add: extends_refl)
      next
        case (Some pr)
        obtain tgs eo where pr: "pr = (tgs, eo)" by (cases pr)
        show ?thesis
        proof (cases eo)
          case (Some e)
          with run inb ex \<open>parseStructTag R ty i = Some pr\<close> pr have "s' = s"
            by (subst (asm) structFieldsFrom.simps) (simp add: f_def)
          then show ?thesis by (simp add: extends_refl)
        next
          case None
          note ps = \<open>parseStructTag R ty i = Some pr\<close> [unfolded pr None]
          show ?thesis
          proof (cases "ignored tgs")
            case True
            with run inb ex ps have "structFieldsFrom rc R ty (Suc i) flds s = Some (r, s')"
              by (subst (asm) structFieldsFrom.simps) (simp add: f_def)
            with "1.IH"(1) [OF inb f_def ex ps refl refl True fr] show ?thesis by simp
          next
            case ni: False
            from run inb ex ps ni have
              rr: "(case rc (Type f) tgs s of
                     None \<Rightarrow> None
                   | Some (Panic, s') \<Rightarrow> Some (Panic, s')
                   | Some (Fail err, s') \<Rightarrow> Some (Fail err, s')
                   | Some (Ret p, s') \<Rightarrow>
                       structFieldsFrom rc R ty (Suc i)
                         (flds @ [\<lparr>index = i, info = p\<rparr>]) s') = Some (r, s')"
              by (subst (asm) structFieldsFrom.simps) (simp add: f_def)
            then obtain r1 s1 where c1: "rc (Type f) tgs s = Some (r1, s1)"
              by (cases "rc (Type f) tgs s") auto
            from fr c1 have e1: "extends s s1" unfolding frames_def by blast
            show ?thesis
            proof (cases r1)
              case (Ret p)
              with rr c1 have "structFieldsFrom rc R ty (Suc i)
                         (flds @ [\<lparr>index = i, info = p\<rparr>]) s1 = Some (r, s')" by simp
              from "1.IH"(2) [OF inb f_def ex ps refl refl ni c1 refl Ret fr this]
              have "extends s1 s'" .
              with e1 show ?thesis by (rule extends_trans)
            next
              case (Fail e)
              with rr c1 have "s' = s1" by simp
              with e1 show ?thesis by simp
            next
              case Panic
              with rr c1 have "s' = s1" by simp
              with e1 show ?thesis by simp
            qed
          qed
        qed
      qed
    qed
  qed
qed

lemma structFields_extends:
  "frames rec \<Longrightarrow> structFields rec R ty s = Some (r, s') \<Longrightarrow> extends s s'"
  by (cases "NumField R ty")
     (auto simp: structFields_def extends_refl dest: structFieldsFrom_extends)

lemma runScript_extends:
  "frames rec \<Longrightarrow> runScript rec R sc s = Some (r, s') \<Longrightarrow> extends s s'"
proof (induction sc arbitrary: s)
  case (Done x)
  then show ?case by (simp add: extends_refl)
next
  case (CallCachedTypeInfo1 t m k)
  from CallCachedTypeInfo1.prems(2)
  have "andThen (rec t m s) (\<lambda>r. runScript rec R (k r)) = Some (r, s')" by simp
  from andThen_Some [OF this] show ?case
  proof
    assume "rec t m s = Some (Panic, s') \<and> r = Panic"
    with \<open>frames rec\<close> show ?thesis unfolding frames_def by blast
  next
    assume "\<exists>r1 s1. rec t m s = Some (r1, s1) \<and> r1 \<noteq> Panic \<and>
              runScript rec R (k r1) s1 = Some (r, s')"
    then obtain r1 s1 where a: "rec t m s = Some (r1, s1)"
      and b: "runScript rec R (k r1) s1 = Some (r, s')" by blast
    from \<open>frames rec\<close> a have "extends s s1" unfolding frames_def by blast
    moreover have "extends s1 s'"
      using CallCachedTypeInfo1.IH [OF rangeI \<open>frames rec\<close> b] .
    ultimately show ?thesis by (rule extends_trans)
  qed
next
  case (CallStructFields t k)
  from CallStructFields.prems(2)
  have "andThen (structFields rec R t s) (\<lambda>r. runScript rec R (k r)) = Some (r, s')" by simp
  from andThen_Some [OF this] show ?case
  proof
    assume "structFields rec R t s = Some (Panic, s') \<and> r = Panic"
    with \<open>frames rec\<close> show ?thesis by (blast dest: structFields_extends)
  next
    assume "\<exists>r1 s1. structFields rec R t s = Some (r1, s1) \<and> r1 \<noteq> Panic \<and>
              runScript rec R (k r1) s1 = Some (r, s')"
    then obtain r1 s1 where a: "structFields rec R t s = Some (r1, s1)"
      and b: "runScript rec R (k r1) s1 = Some (r, s')" by blast
    from \<open>frames rec\<close> a have "extends s s1" by (rule structFields_extends)
    moreover have "extends s1 s'"
      using CallStructFields.IH [OF rangeI \<open>frames rec\<close> b] .
    ultimately show ?thesis by (rule extends_trans)
  qed
qed

lemma genTypeInfo_extends:
  assumes "frames rec"
    and "genTypeInfo rec R mkD mkW ty tgs s = Some (r, s')"
  shows "extends (s\<lparr>genCalls := genCalls s @ [(ty, tgs)]\<rparr>) s'"
proof -
  let ?s0 = "s\<lparr>genCalls := genCalls s @ [(ty, tgs)]\<rparr>"
  from assms(2) obtain r1 s1 where a: "runScript rec R (mkD ty tgs) ?s0 = Some (r1, s1)"
    unfolding genTypeInfo_def by (cases "runScript rec R (mkD ty tgs) ?s0") auto
  from assms(1) a have e1: "extends ?s0 s1" by (rule runScript_extends)
  show ?thesis
  proof (cases r1)
    case (Ret d)
    with assms(2) a obtain r2 s2 where b: "runScript rec R (mkW ty tgs) s1 = Some (r2, s2)"
      unfolding genTypeInfo_def by (cases "runScript rec R (mkW ty tgs) s1") auto
    from assms(1) b have e2: "extends s1 s2" by (rule runScript_extends)
    from assms(2) a b Ret have "s' = s2"
      unfolding genTypeInfo_def by (cases r2) auto
    with e1 e2 show ?thesis by (blast intro: extends_trans)
  next
    case (Fail e)
    with assms(2) a have "s' = s1" unfolding genTypeInfo_def by simp
    with e1 show ?thesis by simp
  next
    case Panic
    with assms(2) a have "s' = s1" unfolding genTypeInfo_def by simp
    with e1 show ?thesis by simp
  qed
qed

text \<open>What a build leaves behind, whatever its outcome.\<close>

lemma build_frame:
  assumes miss: "typeCache s key = None"
    and ext: "extends ((putDummy key s)\<lparr>genCalls := genCalls (putDummy key s) @ [key]\<rparr>) s2"
  shows "typeCache s2 key = Some (length (heap s))"
    and "length (heap s) < length (heap s2)"
    and "extends s s2"
    and "extends s (s2\<lparr>typeCache := (typeCache s2)(key := None)\<rparr>)"
    and "extends s (s2\<lparr>heap := (heap s2)[length (heap s) := ti]\<rparr>)"
    and "\<exists>new. genCalls s2 = genCalls s @ key # new \<and> key \<notin> set new"
proof -
  let ?s1 = "(putDummy key s)\<lparr>genCalls := genCalls (putDummy key s) @ [key]\<rparr>"
  have c: "\<forall>k p. typeCache ?s1 k = Some p \<longrightarrow> typeCache s2 k = Some p"
    and l: "length (heap ?s1) \<le> length (heap s2)"
    and t: "take (length (heap ?s1)) (heap s2) = heap ?s1"
    using ext unfolding extends_def by blast+
  from ext obtain new where g: "genCalls s2 = genCalls ?s1 @ new"
    and gn: "\<forall>k \<in> set new. typeCache ?s1 k = None"
    unfolding extends_def by blast
  show k: "typeCache s2 key = Some (length (heap s))"
    using c [rule_format, of key "length (heap s)"] by (simp add: putDummy_def)
  show l': "length (heap s) < length (heap s2)"
    using l by (simp add: putDummy_def)
  have c': "typeCache s2 k = Some p" if a: "typeCache s k = Some p" for k p
  proof -
    from a miss have "k \<noteq> key" by auto
    with a have "typeCache ?s1 k = Some p" by (simp add: putDummy_def)
    with c show ?thesis by blast
  qed
  have "take (length (heap s)) (take (length (heap ?s1)) (heap s2)) = heap s"
    unfolding t by (simp add: putDummy_def)
  then have t': "take (length (heap s)) (heap s2) = heap s"
    by (simp add: putDummy_def min_def)
  have kn: "key \<notin> set new"
  proof
    assume "key \<in> set new"
    with gn have "typeCache ?s1 key = None" by blast
    then show False by (simp add: putDummy_def)
  qed
  have gn': "typeCache s k = None" if a: "k \<in> set (key # new)" for k
  proof (cases "k = key")
    case True
    with miss show ?thesis by simp
  next
    case False
    with a have "k \<in> set new" by simp
    with gn have "typeCache ?s1 k = None" by blast
    with False show ?thesis by (simp add: putDummy_def)
  qed
  have g': "genCalls s2 = genCalls s @ key # new"
    using g by (simp add: putDummy_def)
  show "\<exists>new. genCalls s2 = genCalls s @ key # new \<and> key \<notin> set new"
    using g' kn by blast
  show "extends s s2"
  proof (rule extendsI [where new = "key # new"])
    show "length (heap s) \<le> length (heap s2)" using l' by simp
  qed (fact c' t' g' gn')+
  show "extends s (s2\<lparr>typeCache := (typeCache s2)(key := None)\<rparr>)"
  proof (rule extendsI [where new = "key # new"])
    fix k p assume a: "typeCache s k = Some p"
    with miss have "k \<noteq> key" by auto
    with c' [OF a]
    show "typeCache (s2\<lparr>typeCache := (typeCache s2)(key := None)\<rparr>) k = Some p" by simp
  next
    show "length (heap s) \<le> length (heap (s2\<lparr>typeCache := (typeCache s2)(key := None)\<rparr>))"
      using l' by simp
    show "take (length (heap s)) (heap (s2\<lparr>typeCache := (typeCache s2)(key := None)\<rparr>)) = heap s"
      using t' by simp
    show "genCalls (s2\<lparr>typeCache := (typeCache s2)(key := None)\<rparr>) = genCalls s @ key # new"
      using g' by simp
  qed (fact gn')
  show "extends s (s2\<lparr>heap := (heap s2)[length (heap s) := ti]\<rparr>)"
  proof (rule extendsI [where new = "key # new"])
    fix k p assume "typeCache s k = Some p"
    from c' [OF this]
    show "typeCache (s2\<lparr>heap := (heap s2)[length (heap s) := ti]\<rparr>) k = Some p" by simp
  next
    show "length (heap s) \<le> length (heap (s2\<lparr>heap := (heap s2)[length (heap s) := ti]\<rparr>))"
      using l' by simp
    show "take (length (heap s)) (heap (s2\<lparr>heap := (heap s2)[length (heap s) := ti]\<rparr>)) = heap s"
      using t' by simp
    show "genCalls (s2\<lparr>heap := (heap s2)[length (heap s) := ti]\<rparr>) = genCalls s @ key # new"
      using g' by simp
  qed (fact gn')
qed

lemma cachedTypeInfo1_frames: "frames (cachedTypeInfo1 mkD mkW R n)"
proof (induction n)
  case 0
  show ?case
    by (auto simp: frames_def extends_refl split: option.splits)
next
  case (Suc n)
  show ?case
    unfolding frames_def
  proof (intro allI impI)
    fix ty tgs s r s'
    assume run: "cachedTypeInfo1 mkD mkW R (Suc n) ty tgs s = Some (r, s')"
    show "extends s s'"
    proof (cases "typeCache s (ty, tgs)")
      case (Some p)
      with run show ?thesis by (simp add: extends_refl)
    next
      case None
      let ?g = "genTypeInfo (cachedTypeInfo1 mkD mkW R n) R mkD mkW ty tgs (putDummy (ty, tgs) s)"
      from run None obtain r2 s2 where g: "?g = Some (r2, s2)"
        by (cases ?g) auto
      note bf = build_frame [OF None genTypeInfo_extends [OF Suc g]]
      show ?thesis
      proof (cases r2)
        case (Ret ti)
        with run None g bf(1) have "s' = s2\<lparr>heap := (heap s2)[length (heap s) := ti]\<rparr>"
          by simp
        with bf(5) show ?thesis by simp
      next
        case (Fail e)
        with run None g have "s' = s2\<lparr>typeCache := (typeCache s2)((ty, tgs) := None)\<rparr>"
          by simp
        with bf(4) show ?thesis by simp
      next
        case Panic
        with run None g have "s' = s2" by simp
        with bf(3) show ?thesis by simp
      qed
    qed
  qed
qed

subsection \<open>Hits and misses\<close>

lemma cachedTypeInfo1_hit:
  "typeCache s (ty, tgs) = Some p \<Longrightarrow> cachedTypeInfo1 mkD mkW R n ty tgs s = Some (Ret p, s)"
  by (cases n) simp_all

lemma cachedTypeInfo_hit:
  "typeCache s (ty, tgs) = Some p \<Longrightarrow> cachedTypeInfo mkD mkW R n ty tgs s = Some (Ret p, s)"
  by (simp add: cachedTypeInfo_def)

lemma cachedTypeInfo_miss:
  "typeCache s (ty, tgs) = None \<Longrightarrow>
   cachedTypeInfo mkD mkW R n ty tgs s = cachedTypeInfo1 mkD mkW R n ty tgs s"
  by (simp add: cachedTypeInfo_def)

lemma cachedTypeInfo_frames: "frames (cachedTypeInfo mkD mkW R n)"
  using cachedTypeInfo1_frames [of mkD mkW R n]
  by (auto simp: frames_def cachedTypeInfo_def extends_refl split: option.splits)

text \<open>The three ways out of a miss.\<close>

lemma cachedTypeInfo1_miss:
  assumes miss: "typeCache s (ty, tgs) = None"
    and run: "cachedTypeInfo1 mkD mkW R n ty tgs s = Some (r, s')"
  obtains m r2 s2 where "n = Suc m"
    and "genTypeInfo (cachedTypeInfo1 mkD mkW R m) R mkD mkW ty tgs (putDummy (ty, tgs) s)
           = Some (r2, s2)"
    and "typeCache s2 (ty, tgs) = Some (length (heap s))"
    and "length (heap s) < length (heap s2)"
    and "heap s2 ! length (heap s) = \<lparr>decoder = None, writer = None\<rparr>"
    and "\<exists>new. genCalls s2 = genCalls s @ (ty, tgs) # new \<and> (ty, tgs) \<notin> set new"
    and "extends ((putDummy (ty, tgs) s)\<lparr>genCalls := genCalls (putDummy (ty, tgs) s) @ [(ty, tgs)]\<rparr>) s2"
    and "case r2 of
           Ret ti \<Rightarrow> r = Ret (length (heap s)) \<and>
                     s' = s2\<lparr>heap := (heap s2)[length (heap s) := ti]\<rparr>
         | Fail e \<Rightarrow> r = Fail e \<and>
                     s' = s2\<lparr>typeCache := (typeCache s2)((ty, tgs) := None)\<rparr>
         | Panic \<Rightarrow> r = Panic \<and> s' = s2"
proof -
  from miss run obtain m where n: "n = Suc m" by (cases n) auto
  let ?g = "genTypeInfo (cachedTypeInfo1 mkD mkW R m) R mkD mkW ty tgs (putDummy (ty, tgs) s)"
  from run miss n obtain r2 s2 where g: "?g = Some (r2, s2)"
    by (cases ?g) auto
  note ext = genTypeInfo_extends [OF cachedTypeInfo1_frames g]
  note bf = build_frame [OF miss ext]
  have "take (length (heap s) + 1) (heap s2) = heap s @ [\<lparr>decoder = None, writer = None\<rparr>]"
    using ext by (simp add: extends_def putDummy_def)
  then have "take (length (heap s) + 1) (heap s2) ! length (heap s) =
      (heap s @ [\<lparr>decoder = None, writer = None\<rparr>]) ! length (heap s)" by simp
  then have z: "heap s2 ! length (heap s) = \<lparr>decoder = None, writer = None\<rparr>"
    by simp
  have "case r2 of
           Ret ti \<Rightarrow> r = Ret (length (heap s)) \<and>
                     s' = s2\<lparr>heap := (heap s2)[length (heap s) := ti]\<rparr>
         | Fail e \<Rightarrow> r = Fail e \<and>
                     s' = s2\<lparr>typeCache := (typeCache s2)((ty, tgs) := None)\<rparr>
         | Panic \<Rightarrow> r = Panic \<and> s' = s2"
    using run miss n g bf(1) by (cases r2) auto
  then show thesis using that [OF n g bf(1) bf(2) z bf(6) ext] by blast
qed


lemma cachedTypeInfo1_Fail_miss:
  assumes "cachedTypeInfo1 mkD mkW R n ty tgs s = Some (Fail e, s')"
  shows "typeCache s (ty, tgs) = None"
proof (cases "typeCache s (ty, tgs)")
  case None
  then show ?thesis .
next
  case (Some p)
  from cachedTypeInfo1_hit [OF Some, of mkD mkW R n] assms show ?thesis by simp
qed

lemma cachedTypeInfo1_Fail:
  assumes run: "cachedTypeInfo1 mkD mkW R n ty tgs s = Some (Fail e, s')"
  obtains m s2 where "n = Suc m"
    and "genTypeInfo (cachedTypeInfo1 mkD mkW R m) R mkD mkW ty tgs (putDummy (ty, tgs) s)
           = Some (Fail e, s2)"
    and "s' = s2\<lparr>typeCache := (typeCache s2)((ty, tgs) := None)\<rparr>"
    and "extends s s'"
proof (rule cachedTypeInfo1_miss [OF cachedTypeInfo1_Fail_miss [OF run] run])
  fix m r2 s2
  assume n: "n = Suc m"
    and g: "genTypeInfo (cachedTypeInfo1 mkD mkW R m) R mkD mkW ty tgs (putDummy (ty, tgs) s)
           = Some (r2, s2)"
    and c: "case r2 of
           Ret ti \<Rightarrow> Fail e = Ret (length (heap s)) \<and>
                     s' = s2\<lparr>heap := (heap s2)[length (heap s) := ti]\<rparr>
         | Fail e' \<Rightarrow> Fail e = Fail e' \<and>
                     s' = s2\<lparr>typeCache := (typeCache s2)((ty, tgs) := None)\<rparr>
         | Panic \<Rightarrow> Fail e = Panic \<and> s' = s2"
  from c have r2: "r2 = Fail e" by (cases r2) simp_all
  with c have s': "s' = s2\<lparr>typeCache := (typeCache s2)((ty, tgs) := None)\<rparr>" by simp
  from cachedTypeInfo1_frames run have "extends s s'" unfolding frames_def by blast
  with n g [unfolded r2] s' show thesis by (rule that)
qed

lemma cachedTypeInfo1_Ret:
  assumes miss: "typeCache s (ty, tgs) = None"
    and run: "cachedTypeInfo1 mkD mkW R n ty tgs s = Some (Ret p, s')"
  obtains m ti s2 where "n = Suc m"
    and "genTypeInfo (cachedTypeInfo1 mkD mkW R m) R mkD mkW ty tgs (putDummy (ty, tgs) s)
           = Some (Ret ti, s2)"
    and "p = length (heap s)"
    and "typeCache s2 (ty, tgs) = Some p"
    and "p < length (heap s2)"
    and "heap s2 ! p = \<lparr>decoder = None, writer = None\<rparr>"
    and "s' = s2\<lparr>heap := (heap s2)[p := ti]\<rparr>"
proof (rule cachedTypeInfo1_miss [OF miss run])
  fix m r2 s2
  assume n: "n = Suc m"
    and g: "genTypeInfo (cachedTypeInfo1 mkD mkW R m) R mkD mkW ty tgs (putDummy (ty, tgs) s)
           = Some (r2, s2)"
    and k: "typeCache s2 (ty, tgs) = Some (length (heap s))"
    and l: "length (heap s) < length (heap s2)"
    and z: "heap s2 ! length (heap s) = \<lparr>decoder = None, writer = None\<rparr>"
    and c: "case r2 of
           Ret ti \<Rightarrow> Ret p = Ret (length (heap s)) \<and>
                     s' = s2\<lparr>heap := (heap s2)[length (heap s) := ti]\<rparr>
         | Fail e \<Rightarrow> Ret p = Fail e \<and>
                     s' = s2\<lparr>typeCache := (typeCache s2)((ty, tgs) := None)\<rparr>
         | Panic \<Rightarrow> Ret p = Panic \<and> s' = s2"
  from c obtain ti where r2: "r2 = Ret ti" by (cases r2) simp_all
  with c have p: "p = length (heap s)"
    and s': "s' = s2\<lparr>heap := (heap s2)[p := ti]\<rparr>" by simp_all
  from n g [unfolded r2] p k [folded p] l [folded p] z [folded p] s'
  show thesis by (rule that)
qed

lemma genTypeInfo_Ret:
  assumes "genTypeInfo rec R mkD mkW ty tgs s = Some (Ret ti, s')"
  shows "\<exists>d w. ti = \<lparr>decoder = Some d, writer = Some w\<rparr>"
  using assms unfolding genTypeInfo_def
  by (auto split: option.splits res.splits)

lemma resolved_is_cached:
  assumes "cachedTypeInfo1 mkD mkW R n ty tgs s = Some (Ret p, s')"
  shows "typeCache s' (ty, tgs) = Some p"
proof (cases "typeCache s (ty, tgs)")
  case (Some q)
  with assms cachedTypeInfo1_hit [OF Some, of mkD mkW R n] show ?thesis by simp
next
  case None
  show ?thesis
  proof (rule cachedTypeInfo1_Ret [OF None assms])
    fix m ti s2
    assume "typeCache s2 (ty, tgs) = Some p" and "s' = s2\<lparr>heap := (heap s2)[p := ti]\<rparr>"
    then show ?thesis by simp
  qed
qed

text \<open>
  Claim C7. On a miss, \<open>cachedTypeInfo1\<close> puts a dummy object at a new
  address \<open>p\<close> into the cache. Every call with the same key during the build
  returns \<open>p\<close>; when the builder returns, the key is still bound to
  \<open>p\<close> and the object at \<open>p\<close> is still the dummy; the result is
  written into the object at \<open>p\<close> and \<open>p\<close> is returned. No later
  call binds the key to another address or changes the object.
\<close>

theorem placeholder_completed_in_place:
  assumes miss: "typeCache s (ty, tgs) = None"
    and run: "cachedTypeInfo1 mkD mkW R n ty tgs s = Some (Ret p, s')"
  shows "typeCache (putDummy (ty, tgs) s) (ty, tgs) = Some p \<and>
         heap (putDummy (ty, tgs) s) ! p = \<lparr>decoder = None, writer = None\<rparr> \<and>
         (\<exists>m ti s2.
            n = Suc m \<and>
            genTypeInfo (cachedTypeInfo1 mkD mkW R m) R mkD mkW ty tgs (putDummy (ty, tgs) s)
              = Some (Ret ti, s2) \<and>
            typeCache s2 (ty, tgs) = Some p \<and>
            heap s2 ! p = \<lparr>decoder = None, writer = None\<rparr> \<and>
            s' = s2\<lparr>heap := (heap s2)[p := ti]\<rparr>) \<and>
         typeCache s' (ty, tgs) = Some p \<and>
         (\<exists>d w. heap s' ! p = \<lparr>decoder = Some d, writer = Some w\<rparr>) \<and>
         (\<forall>sm j.
            extends ((putDummy (ty, tgs) s)\<lparr>genCalls := genCalls s @ [(ty, tgs)]\<rparr>) sm \<longrightarrow>
            cachedTypeInfo1 mkD mkW R j ty tgs sm = Some (Ret p, sm)) \<and>
         (\<forall>mkD' mkW' R' n' ty' tgs' r s''.
            cachedTypeInfo1 mkD' mkW' R' n' ty' tgs' s' = Some (r, s'') \<longrightarrow>
            typeCache s'' (ty, tgs) = Some p \<and> heap s'' ! p = heap s' ! p)"
proof -
  from cachedTypeInfo1_Ret [OF miss run]
  obtain m ti s2 where n: "n = Suc m"
    and g: "genTypeInfo (cachedTypeInfo1 mkD mkW R m) R mkD mkW ty tgs (putDummy (ty, tgs) s)
           = Some (Ret ti, s2)"
    and p: "p = length (heap s)"
    and k: "typeCache s2 (ty, tgs) = Some p"
    and l: "p < length (heap s2)"
    and z: "heap s2 ! p = \<lparr>decoder = None, writer = None\<rparr>"
    and s': "s' = s2\<lparr>heap := (heap s2)[p := ti]\<rparr>"
    by metis
  from genTypeInfo_Ret [OF g] obtain d w
    where ti: "ti = \<lparr>decoder = Some d, writer = Some w\<rparr>" by blast
  have a: "typeCache (putDummy (ty, tgs) s) (ty, tgs) = Some p"
    and b: "heap (putDummy (ty, tgs) s) ! p = \<lparr>decoder = None, writer = None\<rparr>"
    by (simp_all add: putDummy_def p)
  have e: "typeCache s' (ty, tgs) = Some p" using k s' by simp
  have f: "heap s' ! p = \<lparr>decoder = Some d, writer = Some w\<rparr>"
    using s' l ti by simp
  have h: "typeCache s'' (ty, tgs) = Some p \<and> heap s'' ! p = heap s' ! p"
    if "cachedTypeInfo1 mkD' mkW' R' n' ty' tgs' s' = Some (r, s'')"
    for mkD' :: "rtype \<Rightarrow> tags \<Rightarrow> 'a script" and mkW' :: "rtype \<Rightarrow> tags \<Rightarrow> 'b script"
      and R' n' ty' tgs' r s''
  proof -
    from cachedTypeInfo1_frames that have x: "extends s' s''"
      unfolding frames_def by blast
    then have "typeCache s'' (ty, tgs) = Some p" using e unfolding extends_def by blast
    moreover have "p < length (heap s')" using s' l by simp
    moreover from x have "take (length (heap s')) (heap s'') = heap s'"
      unfolding extends_def by blast
    then have "take (length (heap s')) (heap s'') ! p = heap s' ! p" by simp
    ultimately show ?thesis by simp
  qed
  have re: "cachedTypeInfo1 mkD mkW R j ty tgs sm = Some (Ret p, sm)"
    if "extends ((putDummy (ty, tgs) s)\<lparr>genCalls := genCalls s @ [(ty, tgs)]\<rparr>) sm"
    for sm j
  proof -
    from that a have "typeCache sm (ty, tgs) = Some p" unfolding extends_def by simp
    then show ?thesis by (rule cachedTypeInfo1_hit)
  qed
  from n g k z s'
  have c3: "\<exists>m ti s2.
            n = Suc m \<and>
            genTypeInfo (cachedTypeInfo1 mkD mkW R m) R mkD mkW ty tgs (putDummy (ty, tgs) s)
              = Some (Ret ti, s2) \<and>
            typeCache s2 (ty, tgs) = Some p \<and>
            heap s2 ! p = \<lparr>decoder = None, writer = None\<rparr> \<and>
            s' = s2\<lparr>heap := (heap s2)[p := ti]\<rparr>"
    by blast
  from a b c3 e f re h show ?thesis by blast
qed

lemma resolveAll_extends:
  "resolveAll mkD mkW R n ks s = Some s' \<Longrightarrow> extends s s'"
proof (induction ks arbitrary: s)
  case Nil
  then show ?case by (simp add: extends_refl)
next
  case (Cons k ks)
  from Cons.prems obtain r s1
    where a: "cachedTypeInfo mkD mkW R n (fst k) (snd k) s = Some (r, s1)"
      and b: "resolveAll mkD mkW R n ks s1 = Some s'"
    by (auto split: option.splits)
  from cachedTypeInfo_frames a have "extends s s1" unfolding frames_def by blast
  with Cons.IH [OF b] show ?case by (blast intro: extends_trans)
qed

lemma cachedTypeInfo_resolved_is_cached:
  assumes "cachedTypeInfo mkD mkW R n ty tgs s = Some (Ret p, s')"
  shows "typeCache s' (ty, tgs) = Some p"
proof (cases "typeCache s (ty, tgs)")
  case (Some q)
  with assms show ?thesis by (simp add: cachedTypeInfo_def)
next
  case None
  with assms have "cachedTypeInfo1 mkD mkW R n ty tgs s = Some (Ret p, s')"
    by (simp add: cachedTypeInfo_def)
  then show ?thesis by (rule resolved_is_cached)
qed

text \<open>
  Claim C2. Once \<open>cachedTypeInfo\<close> has returned an address for a key, then
  after any further calls of \<open>cachedTypeInfo\<close> a call for that key returns
  the same address and leaves the state as it is, whatever builder it is given: the
  builder has not run for the key since the first call returned, and the objects of the
  heap are unchanged.
\<close>

theorem resolve_idempotent:
  assumes first: "cachedTypeInfo mkD mkW R n ty tgs s = Some (Ret p, s1)"
    and later: "resolveAll mkD mkW R n ks s1 = Some s2"
  shows "cachedTypeInfo mkD' mkW' R' n' ty tgs s2 = Some (Ret p, s2) \<and>
         cachedTypeInfo1 mkD' mkW' R' n' ty tgs s2 = Some (Ret p, s2) \<and>
         (\<exists>new. genCalls s2 = genCalls s1 @ new \<and> (ty, tgs) \<notin> set new) \<and>
         take (length (heap s1)) (heap s2) = heap s1"
proof -
  from first have c: "typeCache s1 (ty, tgs) = Some p"
    by (rule cachedTypeInfo_resolved_is_cached)
  from later have e: "extends s1 s2" by (rule resolveAll_extends)
  from e c have c2: "typeCache s2 (ty, tgs) = Some p" unfolding extends_def by blast
  from e obtain new where g: "genCalls s2 = genCalls s1 @ new"
    and gn: "\<forall>k \<in> set new. typeCache s1 k = None" unfolding extends_def by blast
  from gn c have "(ty, tgs) \<notin> set new" by auto
  with g have "\<exists>new. genCalls s2 = genCalls s1 @ new \<and> (ty, tgs) \<notin> set new" by blast
  moreover from e have "take (length (heap s1)) (heap s2) = heap s1"
    unfolding extends_def by blast
  ultimately show ?thesis
    using cachedTypeInfo_hit [OF c2] cachedTypeInfo1_hit [OF c2] by blast
qed


text \<open>
  Claim C10. When the build of a key fails, the state returned is the state in which the
  builder failed with the entry of that one key removed. So the entry of any other key
  that was resolved during the build, and every entry that was there before, is still in
  the cache, and a later call for such a key returns it without building.
\<close>

theorem failed_build_keeps_other_entries:
  assumes run: "cachedTypeInfo1 mkD mkW R n ty tgs s = Some (Fail e, s')"
  shows "(\<exists>m s2.
            n = Suc m \<and>
            genTypeInfo (cachedTypeInfo1 mkD mkW R m) R mkD mkW ty tgs (putDummy (ty, tgs) s)
              = Some (Fail e, s2) \<and>
            s' = s2\<lparr>typeCache := (typeCache s2)((ty, tgs) := None)\<rparr> \<and>
            (\<forall>n' ty' tgs' sa q sb.
               (ty', tgs') \<noteq> (ty, tgs) \<longrightarrow>
               cachedTypeInfo1 mkD mkW R n' ty' tgs' sa = Some (Ret q, sb) \<longrightarrow>
               extends sb s2 \<longrightarrow>
               typeCache s' (ty', tgs') = Some q)) \<and>
         (\<forall>k q. typeCache s k = Some q \<longrightarrow> typeCache s' k = Some q) \<and>
         (\<forall>mkD' mkW' R' n' ty' tgs' q.
            typeCache s' (ty', tgs') = Some q \<longrightarrow>
            cachedTypeInfo1 mkD' mkW' R' n' ty' tgs' s' = Some (Ret q, s'))"
proof -
  from cachedTypeInfo1_Fail [OF run]
  obtain m s2 where n: "n = Suc m"
    and g: "genTypeInfo (cachedTypeInfo1 mkD mkW R m) R mkD mkW ty tgs (putDummy (ty, tgs) s)
           = Some (Fail e, s2)"
    and s': "s' = s2\<lparr>typeCache := (typeCache s2)((ty, tgs) := None)\<rparr>"
    and e: "extends s s'"
    by metis
  have nested: "typeCache s' (ty', tgs') = Some q"
    if ne: "(ty', tgs') \<noteq> (ty, tgs)"
      and r: "cachedTypeInfo1 mkD mkW R n' ty' tgs' sa = Some (Ret q, sb)"
      and x: "extends sb s2"
    for n' ty' tgs' sa q sb
  proof -
    from r have "typeCache sb (ty', tgs') = Some q" by (rule resolved_is_cached)
    with x have "typeCache s2 (ty', tgs') = Some q" unfolding extends_def by blast
    with ne s' show ?thesis by simp
  qed
  have old: "\<forall>k q. typeCache s k = Some q \<longrightarrow> typeCache s' k = Some q"
    using e unfolding extends_def by blast
  have reuse: "cachedTypeInfo1 mkD' mkW' R' n' ty' tgs' s' = Some (Ret q, s')"
    if "typeCache s' (ty', tgs') = Some q"
    for mkD' :: "rtype \<Rightarrow> tags \<Rightarrow> 'a script" and mkW' :: "rtype \<Rightarrow> tags \<Rightarrow> 'b script"
      and R' n' ty' tgs' q
    using that by (rule cachedTypeInfo1_hit)
  have "\<exists>m s2.
            n = Suc m \<and>
            genTypeInfo (cachedTypeInfo1 mkD mkW R m) R mkD mkW ty tgs (putDummy (ty, tgs) s)
              = Some (Fail e, s2) \<and>
            s' = s2\<lparr>typeCache := (typeCache s2)((ty, tgs) := None)\<rparr> \<and>
            (\<forall>n' ty' tgs' sa q sb.
               (ty', tgs') \<noteq> (ty, tgs) \<longrightarrow>
               cachedTypeInfo1 mkD mkW R n' ty' tgs' sa = Some (Ret q, sb) \<longrightarrow>
               extends sb s2 \<longrightarrow>
               typeCache s' (ty', tgs') = Some q)"
  proof (intro exI conjI allI impI)
    show "n = Suc m" by (fact n)
    show "genTypeInfo (cachedTypeInfo1 mkD mkW R m) R mkD mkW ty tgs (putDummy (ty, tgs) s)
              = Some (Fail e, s2)" by (fact g)
    show "s' = s2\<lparr>typeCache := (typeCache s2)((ty, tgs) := None)\<rparr>" by (fact s')
  qed (erule (2) nested)
  moreover have "\<forall>mkD' mkW' R' n' ty' tgs' q.
            typeCache s' (ty', tgs') = Some q \<longrightarrow>
            cachedTypeInfo1 mkD' mkW' R' n' ty' tgs' s' = Some (Ret q, s')"
    by (intro allI impI) (erule reuse)
  ultimately show ?thesis using old by (intro conjI)
qed

subsection \<open>The enumeration of fields\<close>

lemma structFieldsFrom_indices:
  "structFieldsFrom rec R ty i flds s = Some (Ret fs, s') \<Longrightarrow>
   map index fs = map index flds @ filter (enumerated R ty) [i..<length (fieldsOf R ty)]"
proof (induction rec R ty i flds s rule: structFieldsFrom.induct)
  case (1 rc R ty i flds s)
  note run = \<open>structFieldsFrom rc R ty i flds s = Some (Ret fs, s')\<close>
  show ?case
  proof (cases "i < length (fieldsOf R ty)")
    case False
    with run have "fs = flds" by (subst (asm) structFieldsFrom.simps) simp
    with False show ?thesis by simp
  next
    case inb: True
    then have upt: "[i..<length (fieldsOf R ty)] = i # [Suc i..<length (fieldsOf R ty)]"
      by (rule upt_conv_Cons)
    define f where "f = fieldsOf R ty ! i"
    show ?thesis
    proof (cases "PkgPath f = ''''")
      case False
      with run inb have "structFieldsFrom rc R ty (Suc i) flds s = Some (Ret fs, s')"
        by (subst (asm) structFieldsFrom.simps) (simp add: f_def)
      from "1.IH"(3) [OF inb f_def False this] False show ?thesis
        by (simp add: upt enumerated_def exported_def f_def)
    next
      case ex: True
      show ?thesis
      proof (cases "parseStructTag R ty i")
        case None
        with run inb ex have False
          by (subst (asm) structFieldsFrom.simps) (simp add: f_def)
        then show ?thesis ..
      next
        case (Some pr)
        obtain tgs eo where pr: "pr = (tgs, eo)" by (cases pr)
        show ?thesis
        proof (cases eo)
          case (Some e)
          with run inb ex \<open>parseStructTag R ty i = Some pr\<close> pr have False
            by (subst (asm) structFieldsFrom.simps) (simp add: f_def)
          then show ?thesis ..
        next
          case None
          note ps = \<open>parseStructTag R ty i = Some pr\<close> [unfolded pr None]
          show ?thesis
          proof (cases "ignored tgs")
            case True
            with run inb ex ps have "structFieldsFrom rc R ty (Suc i) flds s = Some (Ret fs, s')"
              by (subst (asm) structFieldsFrom.simps) (simp add: f_def)
            from "1.IH"(1) [OF inb f_def ex ps refl refl True this] True ps show ?thesis
              by (simp add: upt enumerated_def)
          next
            case ni: False
            from run inb ex ps ni have
              rr: "(case rc (Type f) tgs s of
                     None \<Rightarrow> None
                   | Some (Panic, s') \<Rightarrow> Some (Panic, s')
                   | Some (Fail err, s') \<Rightarrow> Some (Fail err, s')
                   | Some (Ret p, s') \<Rightarrow>
                       structFieldsFrom rc R ty (Suc i)
                         (flds @ [\<lparr>index = i, info = p\<rparr>]) s') = Some (Ret fs, s')"
              by (subst (asm) structFieldsFrom.simps) (simp add: f_def)
            then obtain r1 s1 where c1: "rc (Type f) tgs s = Some (r1, s1)"
              by (cases "rc (Type f) tgs s") auto
            show ?thesis
            proof (cases r1)
              case (Ret p)
              with rr c1 have "structFieldsFrom rc R ty (Suc i)
                         (flds @ [\<lparr>index = i, info = p\<rparr>]) s1 = Some (Ret fs, s')" by simp
              from "1.IH"(2) [OF inb f_def ex ps refl refl ni c1 refl Ret this] ni ps ex
              show ?thesis
                by (simp add: upt enumerated_def exported_def f_def)
            next
              case (Fail e)
              with rr c1 show ?thesis by simp
            next
              case Panic
              with rr c1 show ?thesis by simp
            qed
          qed
        qed
      qed
    qed
  qed
qed

lemma structFields_indices:
  assumes "structFields rec R ty s = Some (Ret fs, s')"
  shows "map index fs = filter (enumerated R ty) [0..<length (fieldsOf R ty)]"
proof (cases "NumField R ty")
  case None
  with assms show ?thesis by (simp add: structFields_def)
next
  case (Some n)
  with assms have "structFieldsFrom rec R ty 0 [] s = Some (Ret fs, s')"
    by (simp add: structFields_def)
  from structFieldsFrom_indices [OF this] show ?thesis by simp
qed





lemma sorted_filter_upt: "sorted_wrt (<) (filter P [i..<n])"
  by (rule sorted_wrt_filter) simp


text \<open>
  Claim C8. When \<open>structFields\<close> returns a list of fields, their indices are
  strictly increasing along the list, and each is the position of a field of the type.
\<close>

theorem structFields_declaration_order:
  assumes "structFields rec R ty s = Some (Ret fs, s')"
  shows "sorted_wrt (<) (map index fs) \<and>
         (\<forall>a b. a < b \<longrightarrow> b < length fs \<longrightarrow> index (fs ! a) < index (fs ! b)) \<and>
         (\<forall>fd \<in> set fs. index fd < length (fieldsOf R ty))"
proof -
  note ix = structFields_indices [OF assms]
  have s: "sorted_wrt (<) (map index fs)" unfolding ix by (rule sorted_filter_upt)
  have "index (fs ! a) < index (fs ! b)" if "a < b" "b < length fs" for a b
    using s that by (simp add: sorted_wrt_iff_nth_less)
  moreover have "index fd < length (fieldsOf R ty)" if "fd \<in> set fs" for fd
  proof -
    from that have "index fd \<in> set (map index fs)" by simp
    then show ?thesis unfolding ix by simp
  qed
  ultimately show ?thesis using s by blast
qed

subsection \<open>Builds return\<close>








subsection \<open>A larger bound changes nothing\<close>









subsection \<open>Re-entrant calls and the examples\<close>

lemma Some_fst_snd: "map_option fst x = Some r \<Longrightarrow> x = Some (r, snd (the x))"
  by (cases x) auto





text \<open>
  Claim C7 at a concrete input. For \<open>type T []T\<close> the dummy is at address 0,
  the builder is handed address 0 by the call for its element type, and after the build
  the object at 0 holds the strategies.
\<close>

theorem placeholder_completed_in_place_witness:
  "typeCache emptyCache (6, noTags) = None \<and>
   map_option fst (cachedTypeInfo1 exMake exMake exTypes 1 6 noTags emptyCache) = Some (Ret 0) \<and>
   typeCache (putDummy (6, noTags) emptyCache) (6, noTags) = Some 0 \<and>
   typeCache (snd (the (cachedTypeInfo1 exMake exMake exTypes 1 6 noTags emptyCache))) (6, noTags)
     = Some 0 \<and>
   heap (snd (the (cachedTypeInfo1 exMake exMake exTypes 1 6 noTags emptyCache))) ! 0
     = \<lparr>decoder = Some [0], writer = Some [0]\<rparr>"
proof -
  let ?run = "cachedTypeInfo1 exMake exMake exTypes 1 6 noTags emptyCache"
  have miss: "typeCache emptyCache (6, noTags) = None" by (simp add: emptyCache_def)
  have r: "map_option fst ?run = Some (Ret 0)" by code_simp
  note t = placeholder_completed_in_place [OF miss Some_fst_snd [OF r]]
  from t have "typeCache (putDummy (6, noTags) emptyCache) (6, noTags) = Some 0"
    and "typeCache (snd (the ?run)) (6, noTags) = Some 0" by blast+
  moreover have "heap (snd (the ?run)) ! 0 = \<lparr>decoder = Some [0], writer = Some [0]\<rparr>"
    by code_simp
  ultimately show ?thesis using miss r by blast
qed

text \<open>
  Claim C2 at a concrete input. \<open>Node\<close> is resolved, then the struct that
  fails and \<open>type T []T\<close>; resolving \<open>Node\<close> again returns
  address 0, and the builder has run once for every key.
\<close>

theorem resolve_idempotent_witness:
  "map_option fst (cachedTypeInfo exMake exMake exTypes 2 0 noTags emptyCache) = Some (Ret 0) \<and>
   resolveAll exMake exMake exTypes 2 [(3, noTags), (6, noTags)]
       (snd (the (cachedTypeInfo exMake exMake exTypes 2 0 noTags emptyCache)))
     \<noteq> None \<and>
   map_option fst
     (cachedTypeInfo exMake exMake exTypes 0 0 noTags
        (the (resolveAll exMake exMake exTypes 2 [(3, noTags), (6, noTags)]
           (snd (the (cachedTypeInfo exMake exMake exTypes 2 0 noTags emptyCache))))))
     = Some (Ret 0) \<and>
   genCalls (the (resolveAll exMake exMake exTypes 2 [(3, noTags), (6, noTags)]
           (snd (the (cachedTypeInfo exMake exMake exTypes 2 0 noTags emptyCache)))))
     = [(0, noTags), (1, noTags), (2, \<lparr>nilOK = False, tail = True, ignored = False\<rparr>),
        (3, noTags), (4, noTags), (6, noTags)]"
proof -
  let ?run = "cachedTypeInfo exMake exMake exTypes 2 0 noTags emptyCache"
  let ?all = "resolveAll exMake exMake exTypes 2 [(3, noTags), (6, noTags)] (snd (the ?run))"
  have r: "map_option fst ?run = Some (Ret 0)" by code_simp
  have a: "?all \<noteq> None" by code_simp
  then have a': "?all = Some (the ?all)" by simp
  note t = resolve_idempotent [OF Some_fst_snd [OF r] a', of exMake exMake exTypes 0]
  from t have "cachedTypeInfo exMake exMake exTypes 0 0 noTags (the ?all) = Some (Ret 0, the ?all)"
    by blast
  then have "map_option fst (cachedTypeInfo exMake exMake exTypes 0 0 noTags (the ?all))
      = Some (Ret 0)" by simp
  moreover have "genCalls (the ?all)
     = [(0, noTags), (1, noTags), (2, \<lparr>nilOK = False, tail = True, ignored = False\<rparr>),
        (3, noTags), (4, noTags), (6, noTags)]"
    by code_simp
  ultimately show ?thesis using r a by blast
qed


text \<open>
  Claim C10 at a concrete input. The struct of type 3 fails on its channel field after
  its \<open>uint\<close> field was resolved: the entry for \<open>uint\<close> stays
  and is returned by the next call, the entry for the struct is gone.
\<close>

theorem failed_build_keeps_other_entries_witness:
  "map_option fst (cachedTypeInfo1 exMake exMake exTypes 2 3 noTags emptyCache)
     = Some (Fail (OtherError ''type is not RLP-serializable'')) \<and>
   typeCache (snd (the (cachedTypeInfo1 exMake exMake exTypes 2 3 noTags emptyCache))) (1, noTags)
     = Some 1 \<and>
   typeCache (snd (the (cachedTypeInfo1 exMake exMake exTypes 2 3 noTags emptyCache))) (3, noTags)
     = None \<and>
   cachedTypeInfo1 exMake exMake exTypes 0 1 noTags
       (snd (the (cachedTypeInfo1 exMake exMake exTypes 2 3 noTags emptyCache)))
     = Some (Ret 1, snd (the (cachedTypeInfo1 exMake exMake exTypes 2 3 noTags emptyCache)))"
proof -
  let ?run = "cachedTypeInfo1 exMake exMake exTypes 2 3 noTags emptyCache"
  have r: "map_option fst ?run = Some (Fail (OtherError ''type is not RLP-serializable''))"
    by code_simp
  have c: "typeCache (snd (the ?run)) (1, noTags) = Some 1" by code_simp
  have g: "typeCache (snd (the ?run)) (3, noTags) = None" by code_simp
  note t = failed_build_keeps_other_entries [OF Some_fst_snd [OF r]]
  from t c have "cachedTypeInfo1 exMake exMake exTypes 0 1 noTags (snd (the ?run))
     = Some (Ret 1, snd (the ?run))" by blast
  with r c g show ?thesis by blast
qed



text \<open>
  Claim C8 at a concrete input. The struct of type 5 again: the indices are 0 and 3, in
  this order.
\<close>

theorem structFields_declaration_order_witness:
  "map_option fst
     (structFields (cachedTypeInfo1 exMake exMake exTypes 3) exTypes 5 emptyCache)
     = Some (Ret [\<lparr>index = 0, info = 0\<rparr>, \<lparr>index = 3, info = 1\<rparr>]) \<and>
   sorted_wrt (<) (map index [\<lparr>index = 0, info = 0\<rparr>, \<lparr>index = 3, info = 1\<rparr>])"
proof -
  let ?run = "structFields (cachedTypeInfo1 exMake exMake exTypes 3) exTypes 5 emptyCache"
  have r: "map_option fst ?run = Some (Ret [\<lparr>index = 0, info = 0\<rparr>, \<lparr>index = 3, info = 1\<rparr>])"
    by code_simp
  from structFields_declaration_order [OF Some_fst_snd [OF r]]
  have "sorted_wrt (<) (map index [\<lparr>index = 0, info = 0\<rparr>, \<lparr>index = 3, info = 1\<rparr>])"
    by blast
  with r show ?thesis by blast
qed

text \<open>
  An entry that is kept when an enclosing build fails may hold the address of the dummy
  of the key that was removed. The struct of type 7 resolves the slice of itself, whose
  strategy is handed the struct's dummy at address 0, and then fails on its channel:
  the slice keeps its entry, the struct has none, and the object at 0 stays zero.
\<close>

lemma kept_entry_holds_removed_dummy:
  "map_option fst (cachedTypeInfo1 exMake exMake exTypes 2 7 noTags emptyCache)
     = Some (Fail (OtherError ''type is not RLP-serializable'')) \<and>
   typeCache (snd (the (cachedTypeInfo1 exMake exMake exTypes 2 7 noTags emptyCache))) (7, noTags)
     = None \<and>
   typeCache (snd (the (cachedTypeInfo1 exMake exMake exTypes 2 7 noTags emptyCache))) (8, noTags)
     = Some 1 \<and>
   heap (snd (the (cachedTypeInfo1 exMake exMake exTypes 2 7 noTags emptyCache))) ! 1
     = \<lparr>decoder = Some [0], writer = Some [0]\<rparr> \<and>
   heap (snd (the (cachedTypeInfo1 exMake exMake exTypes 2 7 noTags emptyCache))) ! 0
     = \<lparr>decoder = None, writer = None\<rparr>"
  by code_simp

end
